theory Spec2Isabelle
  imports Complex_Main
begin

section \<open>Numbers, array reads and value types\<close>

text \<open>
  The curve library computes on JavaScript numbers. The embedding works over exact real
  arithmetic. A value of type \<open>number\<close> is either a finite number \<open>Some r\<close> or
  \<open>None\<close>, which stands for every value that is not a finite number: \<open>NaN\<close>,
  \<open>+Infinity\<close>, \<open>-Infinity\<close>, and \<open>undefined\<close> as read from an array outside
  its bounds (arithmetic coerces it to \<open>NaN\<close>, comparisons with it are false).
  Functions in which finite arguments can only give finite results are written over
  \<open>real\<close> directly.
\<close>

type_synonym number = "real option"

definition js_add :: "number \<Rightarrow> number \<Rightarrow> number" where
  "js_add a b = (case (a, b) of (Some p, Some q) \<Rightarrow> Some (p + q) | _ \<Rightarrow> None)"

definition js_sub :: "number \<Rightarrow> number \<Rightarrow> number" where
  "js_sub a b = (case (a, b) of (Some p, Some q) \<Rightarrow> Some (p - q) | _ \<Rightarrow> None)"

definition js_mul :: "number \<Rightarrow> number \<Rightarrow> number" where
  "js_mul a b = (case (a, b) of (Some p, Some q) \<Rightarrow> Some (p * q) | _ \<Rightarrow> None)"

text \<open>
  Division of finite numbers by zero gives \<open>\<plusminus>Infinity\<close> or \<open>NaN\<close>, hence \<open>None\<close>.
  Every divisor in this library is a difference of array reads or of finite arguments,
  so a divisor \<open>None\<close> is always \<open>NaN\<close>, never an infinity, and the quotient is
  \<open>NaN\<close>.
\<close>

definition js_div :: "number \<Rightarrow> number \<Rightarrow> number" where
  "js_div a b =
     (case (a, b) of (Some p, Some q) \<Rightarrow> if q = 0 then None else Some (p / q) | _ \<Rightarrow> None)"

definition js_le :: "number \<Rightarrow> number \<Rightarrow> bool" where
  "js_le a b = (case (a, b) of (Some p, Some q) \<Rightarrow> p \<le> q | _ \<Rightarrow> False)"

definition js_lt :: "number \<Rightarrow> number \<Rightarrow> bool" where
  "js_lt a b = (case (a, b) of (Some p, Some q) \<Rightarrow> p < q | _ \<Rightarrow> False)"

text \<open>Strict equality \<open>===\<close> of a number with an array element: false for \<open>undefined\<close>.\<close>

definition js_eq :: "number \<Rightarrow> number \<Rightarrow> bool" where
  "js_eq a b = (case (a, b) of (Some p, Some q) \<Rightarrow> p = q | _ \<Rightarrow> False)"

text \<open>\<open>xs[i]\<close> for an array of finite numbers: \<open>undefined\<close> outside the bounds.\<close>

definition rd :: "real list \<Rightarrow> int \<Rightarrow> number" where
  "rd xs i = (if 0 \<le> i \<and> i < int (length xs) then Some (xs ! nat i) else None)"

text \<open>The same read on an array whose elements may already be non-finite.\<close>

definition rdn :: "number list \<Rightarrow> int \<Rightarrow> number" where
  "rdn xs i = (if 0 \<le> i \<and> i < int (length xs) then xs ! nat i else None)"

text \<open>
  The records are polymorphic in the coordinate type: \<open>real Point\<close> is a point of
  finite coordinates, \<open>number Point\<close> one whose coordinates may be non-finite. The
  fields \<open>x\<close>, \<open>y\<close> of the source are \<open>px\<close>, \<open>py\<close>; the coefficients
  \<open>a\<close>, \<open>b\<close>, \<open>c\<close>, \<open>d\<close> are \<open>coef_a\<close> to \<open>coef_d\<close>.
\<close>

record 'a Point =
  px :: 'a
  py :: 'a

type_synonym Matrix = "real list list"

record 'a CubicPolynomial =
  coef_a :: 'a
  coef_b :: 'a
  coef_c :: 'a
  coef_d :: 'a

record 'a HermiteForm =
  P0 :: "'a Point"
  P1 :: "'a Point"
  T0 :: "'a Point"
  T1 :: "'a Point"

record TrimRange =
  u1 :: real
  u2 :: real

type_synonym KnotVector = "real list"

definition fin_point :: "real Point \<Rightarrow> number Point" where
  "fin_point p = \<lparr>px = Some (px p), py = Some (py p)\<rparr>"

definition fin_form :: "real HermiteForm \<Rightarrow> number HermiteForm" where
  "fin_form f = \<lparr>P0 = fin_point (P0 f), P1 = fin_point (P1 f),
                 T0 = fin_point (T0 f), T1 = fin_point (T1 f)\<rparr>"

section \<open>Matrices\<close>

text \<open>
  The errors of the library. \<open>throw new Error\<close> in \<open>multiplyVector\<close> is
  \<open>DimensionMismatch\<close>, in \<open>bezierToPowerMatrix\<close> it is \<open>NotImplemented\<close>;
  \<open>TypeError\<close> is what \<open>A[0].length\<close> raises on an empty matrix.
\<close>

datatype error = DimensionMismatch | NotImplemented | TypeError

definition multiplyVector :: "Matrix \<Rightarrow> real list \<Rightarrow> error + number list" where
  "multiplyVector A v =
     (case A of
        [] \<Rightarrow> Inl TypeError
      | r0 # _ \<Rightarrow>
          let rows = length A; cols = length r0 in
          if cols \<noteq> length v then Inl DimensionMismatch
          else Inr (map (\<lambda>i. fold (\<lambda>j acc. js_add acc (js_mul (rd (A ! i) (int j)) (rd v (int j))))
                                [0..<cols] (Some 0))
                        [0..<rows]))"

definition hermiteMatrix :: Matrix where
  "hermiteMatrix = [[2, -2, 1, 1], [-3, 3, -2, -1], [0, 0, 1, 0], [1, 0, 0, 0]]"

definition bezierToPowerMatrix :: "int \<Rightarrow> error + Matrix" where
  "bezierToPowerMatrix n =
     (if n = 2 then Inr [[1, -2, 1], [-2, 2, 0], [1, 0, 0]]
      else if n = 3 then Inr [[-1, 3, -3, 1], [3, -6, 3, 0], [-3, 3, 0, 0], [1, 0, 0, 0]]
      else Inl NotImplemented)"

section \<open>Hermite curves\<close>

definition hermiteToPolynomial ::
  "real HermiteForm \<Rightarrow> error + (number CubicPolynomial \<times> number CubicPolynomial)" where
  "hermiteToPolynomial form =
     (let H = hermiteMatrix;
          gx = [px (P0 form), px (P1 form), px (T0 form), px (T1 form)] in
      case multiplyVector H gx of
        Inl e \<Rightarrow> Inl e
      | Inr cx \<Rightarrow>
          let gy = [py (P0 form), py (P1 form), py (T0 form), py (T1 form)] in
          (case multiplyVector H gy of
             Inl e \<Rightarrow> Inl e
           | Inr cy \<Rightarrow>
               Inr (\<lparr>coef_a = rdn cx 0, coef_b = rdn cx 1, coef_c = rdn cx 2, coef_d = rdn cx 3\<rparr>,
                    \<lparr>coef_a = rdn cy 0, coef_b = rdn cy 1, coef_c = rdn cy 2, coef_d = rdn cy 3\<rparr>)))"

definition polynomialToHermite ::
  "number CubicPolynomial \<Rightarrow> number CubicPolynomial \<Rightarrow> number HermiteForm" where
  "polynomialToHermite polyX polyY =
     (let ax = coef_a polyX; bx = coef_b polyX; cx = coef_c polyX; dx = coef_d polyX;
          ay = coef_a polyY; by = coef_b polyY; cy = coef_c polyY; dy = coef_d polyY in
      \<lparr>P0 = \<lparr>px = dx, py = dy\<rparr>,
       P1 = \<lparr>px = js_add (js_add (js_add ax bx) cx) dx,
             py = js_add (js_add (js_add ay by) cy) dy\<rparr>,
       T0 = \<lparr>px = cx, py = cy\<rparr>,
       T1 = \<lparr>px = js_add (js_add (js_mul (Some 3) ax) (js_mul (Some 2) bx)) cx,
             py = js_add (js_add (js_mul (Some 3) ay) (js_mul (Some 2) by)) cy\<rparr>\<rparr>)"

section \<open>Bezier curves\<close>

text \<open>
  \<open>binomial\<close> of the source (the name is taken in HOL). The loop divides by
  \<open>i\<close>, which runs from 1: no divisor is zero, so the result is finite.
\<close>

definition binomial_num :: "int \<Rightarrow> int \<Rightarrow> real" where
  "binomial_num n k =
     (if k < 0 \<or> k > n then 0
      else if k = 0 \<or> k = n then 1
      else fold (\<lambda>i result. result * (real_of_int (n + 1 - i) / real_of_int i)) [1..k] 1)"

text \<open>\<open>Math.pow\<close> with a natural exponent is the power; \<open>Math.pow(0, 0)\<close> is 1.\<close>

definition bernstein :: "int \<Rightarrow> int \<Rightarrow> real \<Rightarrow> real" where
  "bernstein i n u =
     (if i < 0 \<or> i > n then 0
      else let binCoeff = binomial_num n i in
           binCoeff * (1 - u) ^ nat (n - i) * u ^ nat i)"

text \<open>
  The inner loop of \<open>deCasteljau\<close>, which \<open>getTrimmedControlPoints\<close> repeats twice:
  the next level of interpolated points, one fewer than the level before (none for an
  empty level, where the bound \<open>length - 1\<close> is negative).
\<close>

definition interpolateLevel :: "real Point list \<Rightarrow> real \<Rightarrow> real Point list" where
  "interpolateLevel points u =
     fold (\<lambda>i newPoints. newPoints @
             [\<lparr>px = (1 - u) * px (points ! i) + u * px (points ! (i + 1)),
               py = (1 - u) * py (points ! i) + u * py (points ! (i + 1))\<rparr>])
          [0..<length points - 1] []"

text \<open>
  The recursion of \<open>deCasteljau\<close> stops only at a list of one point; \<open>None\<close> is
  a call that never returns.
\<close>

partial_function (option) deCasteljau :: "real Point list \<Rightarrow> real \<Rightarrow> real Point option" where
  "deCasteljau points u =
     (if length points = 1 then Some (points ! 0)
      else deCasteljau (interpolateLevel points u) u)"

declare deCasteljau.simps [code]

definition evaluateBezier :: "real Point list \<Rightarrow> real \<Rightarrow> real Point" where
  "evaluateBezier points u =
     (let n = int (length points) - 1 in
      fold (\<lambda>i acc. let basis = bernstein (int i) n u in
                     \<lparr>px = px acc + px (points ! i) * basis,
                      py = py acc + py (points ! i) * basis\<rparr>)
           [0..<length points] \<lparr>px = 0, py = 0\<rparr>)"

text \<open>
  \<open>getTrimmedControlPoints\<close>: each of the first two loops runs \<open>length points\<close>
  times on a pair (collected points, current level); the level has at least one point
  whenever it is read. \<open>alpha\<close> is not finite when \<open>u1 = 1\<close>.
\<close>

definition getTrimmedControlPoints :: "real Point list \<Rightarrow> TrimRange \<Rightarrow> number Point list" where
  "getTrimmedControlPoints points trimRange =
     (let leftPoints =
            fst (fold (\<lambda>i (leftPoints, tempPoints).
                         (leftPoints @ [tempPoints ! 0], interpolateLevel tempPoints (u1 trimRange)))
                      [0..<length points] ([], points));
          rightPoints =
            fst (fold (\<lambda>i (rightPoints, tempPoints).
                         (tempPoints ! (length tempPoints - 1) # rightPoints,
                          interpolateLevel tempPoints (u2 trimRange)))
                      [0..<length points] ([], points));
          alpha = js_div (Some (u2 trimRange - u1 trimRange)) (Some (1 - u1 trimRange)) in
      fold (\<lambda>i trimmedPoints. trimmedPoints @
              [\<lparr>px = js_add (js_mul (js_sub (Some 1) alpha) (Some (px (leftPoints ! i))))
                            (js_mul alpha (Some (px (rightPoints ! i)))),
                py = js_add (js_mul (js_sub (Some 1) alpha) (Some (py (leftPoints ! i))))
                            (js_mul alpha (Some (py (rightPoints ! i))))\<rparr>])
           [0..<length points] [])"

definition bezierToPolynomial :: "real Point list \<Rightarrow> error + (number list \<times> number list)" where
  "bezierToPolynomial points =
     (let degree = int (length points) - 1 in
      case bezierToPowerMatrix degree of
        Inl e \<Rightarrow> Inl e
      | Inr matrix \<Rightarrow>
          let xCoords = map px points; yCoords = map py points in
          (case multiplyVector matrix xCoords of
             Inl e \<Rightarrow> Inl e
           | Inr xs \<Rightarrow>
               (case multiplyVector matrix yCoords of
                  Inl e \<Rightarrow> Inl e
                | Inr ys \<Rightarrow> Inr (xs, ys))))"

section \<open>B-splines\<close>

text \<open>
  \<open>coxDeBoor\<close>: the index and the degree are natural numbers. The first equation is
  the branch \<open>k === 0\<close>, where the right-endpoint test compares \<open>i\<close> with
  \<open>knots.length - k - 2\<close> for this \<open>k\<close>, which is 0. A read outside the knot
  vector is \<open>None\<close>: the comparisons are then false, a denominator is \<open>NaN\<close> and
  so different from 0.
\<close>

fun coxDeBoor :: "nat \<Rightarrow> nat \<Rightarrow> real \<Rightarrow> KnotVector \<Rightarrow> number" where
  "coxDeBoor i 0 u knots =
     (if (js_le (rd knots (int i)) (Some u) \<and> js_lt (Some u) (rd knots (int i + 1)))
         \<or> (js_eq (Some u) (rd knots (int (length knots) - 1))
            \<and> int i = int (length knots) - int (0::nat) - 2)
      then Some 1 else Some 0)"
| "coxDeBoor i (Suc k') u knots =
     (let k = int (Suc k');
          denom1 = js_sub (rd knots (int i + k)) (rd knots (int i));
          term1 = (if denom1 \<noteq> Some 0
                   then js_mul (js_div (js_sub (Some u) (rd knots (int i))) denom1)
                               (coxDeBoor i k' u knots)
                   else Some 0);
          denom2 = js_sub (rd knots (int i + k + 1)) (rd knots (int i + 1));
          term2 = (if denom2 \<noteq> Some 0
                   then js_mul (js_div (js_sub (rd knots (int i + k + 1)) (Some u)) denom2)
                               (coxDeBoor (i + 1) k' u knots)
                   else Some 0)
      in js_add term1 term2)"

definition evaluateBSpline ::
  "number Point list \<Rightarrow> nat \<Rightarrow> real \<Rightarrow> KnotVector \<Rightarrow> number Point" where
  "evaluateBSpline controlPoints degree u knots =
     fold (\<lambda>i acc. let basis = coxDeBoor i degree u knots in
                    \<lparr>px = js_add (px acc) (js_mul (px (controlPoints ! i)) basis),
                     py = js_add (py acc) (js_mul (py (controlPoints ! i)) basis)\<rparr>)
          [0..<length controlPoints] \<lparr>px = Some 0, py = Some 0\<rparr>"

text \<open>\<open>knots.slice(1, -1)\<close>: the elements from index 1 up to, not including, the last.\<close>

definition slice_1_m1 :: "'a list \<Rightarrow> 'a list" where
  "slice_1_m1 xs = drop 1 (take (length xs - 1) xs)"

text \<open>
  \<open>bsplineDerivative\<close>: the loop over \<open>i < n\<close>, \<open>n = length - 1\<close>, runs
  \<open>length - 1\<close> times (not at all for an empty list) and reads control points within
  bounds; the knots it reads may be out of bounds, and the division has no guard.
\<close>

definition bsplineDerivative ::
  "number Point list \<Rightarrow> nat \<Rightarrow> real \<Rightarrow> KnotVector \<Rightarrow> number Point" where
  "bsplineDerivative controlPoints degree u knots =
     (if degree \<ge> 1 then
        let derivCtrlPts =
              fold (\<lambda>i derivCtrlPts.
                      let factor = js_div (Some (real degree))
                                     (js_sub (rd knots (int i + int degree + 1))
                                             (rd knots (int i + 1))) in
                      derivCtrlPts @
                        [\<lparr>px = js_mul factor (js_sub (px (controlPoints ! (i + 1)))
                                                    (px (controlPoints ! i))),
                          py = js_mul factor (js_sub (py (controlPoints ! (i + 1)))
                                                    (py (controlPoints ! i)))\<rparr>])
                   [0..<length controlPoints - 1] []
        in evaluateBSpline derivCtrlPts (degree - 1) u (slice_1_m1 knots)
      else \<lparr>px = Some 0, py = Some 0\<rparr>)"

text \<open>
  \<open>generateUniformKnots\<close>: \<open>n\<close> and \<open>k\<close> are natural numbers. The middle loop
  runs for \<open>1 \<le> i < n - k\<close>, so not at all unless \<open>n - k \<ge> 2\<close>, and its divisor
  \<open>n - k\<close> is then not zero.
\<close>

definition generateUniformKnots :: "nat \<Rightarrow> nat \<Rightarrow> KnotVector" where
  "generateUniformKnots n k =
     (let knots0 = fold (\<lambda>i knots. knots @ [0]) [0..<Suc k] [];
          knots1 = fold (\<lambda>i knots. knots @ [real i / (real n - real k)]) [1..<n - k] knots0;
          knots2 = fold (\<lambda>i knots. knots @ [1]) [0..<Suc k] knots1
      in knots2)"

text \<open>The loop of \<open>validateKnots\<close> over the indices, leaving at the first decrease.\<close>

fun nonDecreasingLoop :: "KnotVector \<Rightarrow> nat list \<Rightarrow> bool" where
  "nonDecreasingLoop knots [] = True"
| "nonDecreasingLoop knots (i # rest) =
     (if knots ! i > knots ! (i + 1) then False else nonDecreasingLoop knots rest)"

definition validateKnots :: "KnotVector \<Rightarrow> nat \<Rightarrow> nat \<Rightarrow> bool" where
  "validateKnots knots n k =
     (if length knots \<noteq> n + k + 1 then False
      else nonDecreasingLoop knots [0..<length knots - 1])"

section \<open>The B-spline and its derivative as the specification words them\<close>

text \<open>
  The basis function of the specification: the Cox-de Boor recursion, in which a term
  with a zero denominator is 0. Its base case includes the right endpoint, for the basis
  function of index \<open>length - p - 2\<close>, where \<open>p\<close> is the degree of the top-level
  call: the last basis function of that degree, so that the curve has its last point.
\<close>

fun basis_spec :: "nat \<Rightarrow> nat \<Rightarrow> nat \<Rightarrow> real \<Rightarrow> KnotVector \<Rightarrow> number" where
  "basis_spec p i 0 u knots =
     (if (js_le (rd knots (int i)) (Some u) \<and> js_lt (Some u) (rd knots (int i + 1)))
         \<or> (js_eq (Some u) (rd knots (int (length knots) - 1))
            \<and> int i = int (length knots) - int p - 2)
      then Some 1 else Some 0)"
| "basis_spec p i (Suc k') u knots =
     (let k = int (Suc k');
          denom1 = js_sub (rd knots (int i + k)) (rd knots (int i));
          term1 = (if denom1 \<noteq> Some 0
                   then js_mul (js_div (js_sub (Some u) (rd knots (int i))) denom1)
                               (basis_spec p i k' u knots)
                   else Some 0);
          denom2 = js_sub (rd knots (int i + k + 1)) (rd knots (int i + 1));
          term2 = (if denom2 \<noteq> Some 0
                   then js_mul (js_div (js_sub (rd knots (int i + k + 1)) (Some u)) denom2)
                               (basis_spec p (i + 1) k' u knots)
                   else Some 0)
      in js_add term1 term2)"

primrec js_sum :: "number list \<Rightarrow> number" where
  "js_sum [] = Some 0"
| "js_sum (a # as) = js_add a (js_sum as)"

text \<open>The curve of the specification: the sum of the control points weighted by the basis.\<close>

definition evaluate_spec ::
  "number Point list \<Rightarrow> nat \<Rightarrow> real \<Rightarrow> KnotVector \<Rightarrow> number Point" where
  "evaluate_spec P degree u knots =
     \<lparr>px = js_sum (map (\<lambda>i. js_mul (basis_spec degree i degree u knots) (px (P ! i)))
                      [0..<length P]),
      py = js_sum (map (\<lambda>i. js_mul (basis_spec degree i degree u knots) (py (P ! i)))
                      [0..<length P])\<rparr>"

text \<open>
  The derivative of the specification: \<open>(0, 0)\<close> for degree 0; otherwise the control
  points \<open>D i = degree / (knots[i+degree+1] - knots[i+1]) \<cdot> (P[i+1] - P[i])\<close>, one for
  each pair of neighbouring control points, and the curve of degree \<open>degree - 1\<close> over
  them and the knot vector without its first and last knot.
\<close>

definition derivative_spec ::
  "number Point list \<Rightarrow> nat \<Rightarrow> real \<Rightarrow> KnotVector \<Rightarrow> number Point" where
  "derivative_spec P degree u knots =
     (if degree = 0 then \<lparr>px = Some 0, py = Some 0\<rparr>
      else
        let D = (\<lambda>i. let factor = js_div (Some (real degree))
                                 (js_sub (rd knots (int i + int degree + 1)) (rd knots (int i + 1)))
                      in \<lparr>px = js_mul factor (js_sub (px (P ! (i + 1))) (px (P ! i))),
                          py = js_mul factor (js_sub (py (P ! (i + 1))) (py (P ! i)))\<rparr>)
        in evaluate_spec (map D [0..<length P - 1]) (degree - 1) u (butlast (tl knots)))"

section \<open>Arithmetic on numbers and loops that push\<close>

lemma js_ops_Some [simp]:
  "js_add (Some p) (Some q) = Some (p + q)"
  "js_sub (Some p) (Some q) = Some (p - q)"
  "js_mul (Some p) (Some q) = Some (p * q)"
  "js_div (Some p) (Some q) = (if q = 0 then None else Some (p / q))"
  by (simp_all add: js_add_def js_sub_def js_mul_def js_div_def)

lemma js_ops_None [simp]:
  "js_add None b = None" "js_add a None = None"
  "js_sub None b = None" "js_sub a None = None"
  "js_mul None b = None" "js_mul a None = None"
  "js_div None b = None" "js_div a None = None"
  by (simp_all add: js_add_def js_sub_def js_mul_def js_div_def split: option.splits)

lemma rd_in_range: "i < length xs \<Longrightarrow> rd xs (int i) = Some (xs ! i)"
  by (simp add: rd_def)

lemma fold_push: "fold (\<lambda>i acc. acc @ [f i]) is acc0 = acc0 @ map f is"
  by (induction "is" arbitrary: acc0) simp_all

section \<open>Hermite round trip\<close>

lemma multiplyVector_hermite:
  "multiplyVector hermiteMatrix [p, q, s, t] =
     Inr [Some (2 * p - 2 * q + s + t), Some (- 3 * p + 3 * q - 2 * s - t), Some s, Some p]"
  by (simp add: multiplyVector_def hermiteMatrix_def rd_def upt_rec [of _ "numeral _"]
      upt_rec [of 0 "Suc _"] nth_Cons')

text \<open>
  C4. For every Hermite form of finite points and tangents, \<open>hermiteToPolynomial\<close>
  succeeds, and \<open>polynomialToHermite\<close> applied to its two cubic polynomials gives back
  the form itself, exactly.
\<close>

theorem hermite_round_trip:
  "\<exists>polyX polyY. hermiteToPolynomial form = Inr (polyX, polyY)
      \<and> polynomialToHermite polyX polyY = fin_form form"
  by (simp add: hermiteToPolynomial_def multiplyVector_hermite polynomialToHermite_def
      rdn_def fin_form_def fin_point_def Let_def)

section \<open>Conversion to the power basis\<close>

lemma evaluateBezier_quadratic:
  "evaluateBezier [p, q, r] u =
     \<lparr>px = (px p - 2 * px q + px r) * u ^ 2 + (- 2 * px p + 2 * px q) * u + px p,
      py = (py p - 2 * py q + py r) * u ^ 2 + (- 2 * py p + 2 * py q) * u + py p\<rparr>"
  by (simp add: evaluateBezier_def bernstein_def binomial_num_def upt_rec [of _ "numeral _"]
      upt_rec [of 0 "Suc _"] nth_Cons' Let_def upto.simps power2_eq_square algebra_simps)

lemma evaluateBezier_cubic:
  "evaluateBezier [p, q, r, s] u =
     \<lparr>px = (- px p + 3 * px q - 3 * px r + px s) * u ^ 3
            + (3 * px p - 6 * px q + 3 * px r) * u ^ 2 + (- 3 * px p + 3 * px q) * u + px p,
      py = (- py p + 3 * py q - 3 * py r + py s) * u ^ 3
            + (3 * py p - 6 * py q + 3 * py r) * u ^ 2 + (- 3 * py p + 3 * py q) * u + py p\<rparr>"
  by (simp add: evaluateBezier_def bernstein_def binomial_num_def upt_rec [of _ "numeral _"]
      upt_rec [of 0 "Suc _"] nth_Cons' Let_def upto.simps power2_eq_square power3_eq_cube
      algebra_simps)

lemma bezierToPolynomial_quadratic:
  "bezierToPolynomial [p, q, r] =
     Inr ([Some (px p - 2 * px q + px r), Some (- 2 * px p + 2 * px q), Some (px p)],
          [Some (py p - 2 * py q + py r), Some (- 2 * py p + 2 * py q), Some (py p)])"
  by (simp add: bezierToPolynomial_def bezierToPowerMatrix_def multiplyVector_def rd_def
      upt_rec [of _ "numeral _"] upt_rec [of 0 "Suc _"] nth_Cons')

lemma bezierToPolynomial_cubic:
  "bezierToPolynomial [p, q, r, s] =
     Inr ([Some (- px p + 3 * px q - 3 * px r + px s), Some (3 * px p - 6 * px q + 3 * px r),
           Some (- 3 * px p + 3 * px q), Some (px p)],
          [Some (- py p + 3 * py q - 3 * py r + py s), Some (3 * py p - 6 * py q + 3 * py r),
           Some (- 3 * py p + 3 * py q), Some (py p)])"
  by (simp add: bezierToPolynomial_def bezierToPowerMatrix_def multiplyVector_def rd_def
      upt_rec [of _ "numeral _"] upt_rec [of 0 "Suc _"] nth_Cons')

lemma bezierToPolynomial_succeeds:
  assumes "int (length points) - 1 = 2 \<or> int (length points) - 1 = 3"
  shows "\<exists>r. bezierToPolynomial points = Inr r"
proof -
  from assms consider "length points = 3" | "length points = 4" by fastforce
  then show ?thesis
  proof cases
    case 1
    then obtain p q r where "points = [p, q, r]"
      by (auto simp: numeral_3_eq_3 length_Suc_conv)
    then show ?thesis by (simp add: bezierToPolynomial_quadratic)
  next
    case 2
    then obtain p q r s where "points = [p, q, r, s]"
      by (auto simp: numeral_eq_Suc length_Suc_conv)
    then show ?thesis by (simp add: bezierToPolynomial_cubic)
  qed
qed

text \<open>
  C7. \<open>bezierToPowerMatrix n\<close> fails with \<open>NotImplemented\<close> for every degree
  \<open>n\<close> other than 2 and 3 and returns the conversion matrix for 2 and for 3;
  \<open>bezierToPolynomial\<close> fails with \<open>NotImplemented\<close> on every control polygon
  whose degree, its length less one, is neither 2 nor 3, and succeeds when it is 2 or 3.
  The matrices are exact: the coefficients returned for three and for four control
  points are those of the curve \<open>evaluateBezier\<close> in powers of \<open>u\<close>.
\<close>

theorem bezierToPowerMatrix_degrees:
  "(n \<noteq> 2 \<and> n \<noteq> 3 \<longrightarrow> bezierToPowerMatrix n = Inl NotImplemented)
   \<and> bezierToPowerMatrix 2 = Inr [[1, -2, 1], [-2, 2, 0], [1, 0, 0]]
   \<and> bezierToPowerMatrix 3 = Inr [[-1, 3, -3, 1], [3, -6, 3, 0], [-3, 3, 0, 0], [1, 0, 0, 0]]
   \<and> (int (length points) - 1 \<noteq> 2 \<and> int (length points) - 1 \<noteq> 3
        \<longrightarrow> bezierToPolynomial points = Inl NotImplemented)
   \<and> (int (length points) - 1 = 2 \<or> int (length points) - 1 = 3
        \<longrightarrow> (\<exists>r. bezierToPolynomial points = Inr r))
   \<and> (\<exists>a2 a1 a0 b2 b1 b0.
         bezierToPolynomial [p, q, r] = Inr ([Some a2, Some a1, Some a0], [Some b2, Some b1, Some b0])
         \<and> evaluateBezier [p, q, r] u
             = \<lparr>px = a2 * u ^ 2 + a1 * u + a0, py = b2 * u ^ 2 + b1 * u + b0\<rparr>)
   \<and> (\<exists>a3 a2 a1 a0 b3 b2 b1 b0.
         bezierToPolynomial [p, q, r, s]
           = Inr ([Some a3, Some a2, Some a1, Some a0], [Some b3, Some b2, Some b1, Some b0])
         \<and> evaluateBezier [p, q, r, s] u
             = \<lparr>px = a3 * u ^ 3 + a2 * u ^ 2 + a1 * u + a0,
                py = b3 * u ^ 3 + b2 * u ^ 2 + b1 * u + b0\<rparr>)"
proof (intro conjI impI)
  assume "n \<noteq> 2 \<and> n \<noteq> 3"
  then show "bezierToPowerMatrix n = Inl NotImplemented"
    by (simp add: bezierToPowerMatrix_def)
next
  show "bezierToPowerMatrix 2 = Inr [[1, -2, 1], [-2, 2, 0], [1, 0, 0]]"
    by (simp add: bezierToPowerMatrix_def)
next
  show "bezierToPowerMatrix 3 = Inr [[-1, 3, -3, 1], [3, -6, 3, 0], [-3, 3, 0, 0], [1, 0, 0, 0]]"
    by (simp add: bezierToPowerMatrix_def)
next
  assume "int (length points) - 1 \<noteq> 2 \<and> int (length points) - 1 \<noteq> 3"
  then show "bezierToPolynomial points = Inl NotImplemented"
    by (simp add: bezierToPolynomial_def bezierToPowerMatrix_def)
next
  assume "int (length points) - 1 = 2 \<or> int (length points) - 1 = 3"
  then show "\<exists>r. bezierToPolynomial points = Inr r"
    by (rule bezierToPolynomial_succeeds)
next
  show "\<exists>a2 a1 a0 b2 b1 b0.
         bezierToPolynomial [p, q, r] = Inr ([Some a2, Some a1, Some a0], [Some b2, Some b1, Some b0])
         \<and> evaluateBezier [p, q, r] u
             = \<lparr>px = a2 * u ^ 2 + a1 * u + a0, py = b2 * u ^ 2 + b1 * u + b0\<rparr>"
    by (simp add: bezierToPolynomial_quadratic evaluateBezier_quadratic)
next
  show "\<exists>a3 a2 a1 a0 b3 b2 b1 b0.
         bezierToPolynomial [p, q, r, s]
           = Inr ([Some a3, Some a2, Some a1, Some a0], [Some b3, Some b2, Some b1, Some b0])
         \<and> evaluateBezier [p, q, r, s] u
             = \<lparr>px = a3 * u ^ 3 + a2 * u ^ 2 + a1 * u + a0,
                py = b3 * u ^ 3 + b2 * u ^ 2 + b1 * u + b0\<rparr>"
    by (simp add: bezierToPolynomial_cubic evaluateBezier_cubic)
qed

theorem bezierToPowerMatrix_degrees_witness:
  "bezierToPowerMatrix 5 = Inl NotImplemented
   \<and> bezierToPolynomial [\<lparr>px = 0, py = 0\<rparr>, \<lparr>px = 1, py = 2\<rparr>] = Inl NotImplemented
   \<and> (\<exists>r. bezierToPolynomial
             [\<lparr>px = 0, py = 0\<rparr>, \<lparr>px = 1, py = 2\<rparr>, \<lparr>px = 3, py = 3\<rparr>, \<lparr>px = 4, py = 0\<rparr>] = Inr r)"
  using bezierToPowerMatrix_degrees [of 5 "[\<lparr>px = 0, py = 0\<rparr>, \<lparr>px = 1, py = 2\<rparr>]"]
    bezierToPowerMatrix_degrees
      [of 5 "[\<lparr>px = 0, py = 0\<rparr>, \<lparr>px = 1, py = 2\<rparr>, \<lparr>px = 3, py = 3\<rparr>, \<lparr>px = 4, py = 0\<rparr>]"]
  by simp

section \<open>De Casteljau's algorithm\<close>

lemma interpolateLevel_eq:
  "interpolateLevel points u =
     map (\<lambda>i. \<lparr>px = (1 - u) * px (points ! i) + u * px (points ! (i + 1)),
                py = (1 - u) * py (points ! i) + u * py (points ! (i + 1))\<rparr>)
         [0..<length points - 1]"
  by (simp add: interpolateLevel_def fold_push)

lemma length_interpolateLevel: "length (interpolateLevel points u) = length points - 1"
  by (simp add: interpolateLevel_eq)

lemma deCasteljau_returns: "points \<noteq> [] \<Longrightarrow> \<exists>p. deCasteljau points u = Some p"
proof (induction "length points" arbitrary: points)
  case 0
  then show ?case by simp
next
  case (Suc m)
  show ?case
  proof (cases "m = 0")
    case True
    with Suc.hyps(2) have "length points = 1" by simp
    then show ?thesis by (subst deCasteljau.simps) simp
  next
    case False
    with Suc.hyps(2) have len: "length (interpolateLevel points u) = m" "length points \<noteq> 1"
      by (simp_all add: length_interpolateLevel)
    with False have "interpolateLevel points u \<noteq> []" by auto
    with Suc.hyps(1) [of "interpolateLevel points u"] len
    obtain p where "deCasteljau (interpolateLevel points u) u = Some p" by auto
    with len show ?thesis by (subst deCasteljau.simps) simp
  qed
qed

lemma deCasteljau_Some_nonempty:
  assumes "deCasteljau points u = Some p"
  shows "points \<noteq> []"
proof (rule deCasteljau.raw_induct [where P = "\<lambda>ps v q. ps \<noteq> []", OF _ assms])
  fix dc :: "real Point list \<Rightarrow> real \<Rightarrow> real Point option" and ps v q
  assume IH: "\<And>ps v q. dc ps v = Some q \<Longrightarrow> ps \<noteq> []"
    and step: "(if length ps = 1 then Some (ps ! 0) else dc (interpolateLevel ps v) v) = Some q"
  show "ps \<noteq> []"
  proof (cases "length ps = 1")
    case True
    then show ?thesis by auto
  next
    case False
    with step have "dc (interpolateLevel ps v) v = Some q" by simp
    then have "interpolateLevel ps v \<noteq> []" by (rule IH)
    then show ?thesis by (auto simp: interpolateLevel_eq)
  qed
qed

text \<open>
  C10. \<open>deCasteljau\<close> returns a point for every non-empty list of control points and
  every \<open>u\<close>: a call on a list that is not a single point recurses on the next level,
  which is exactly one point shorter. On the empty list it never returns: the base case
  of one point is not reached from it.
\<close>

theorem deCasteljau_terminates:
  "(points \<noteq> [] \<longrightarrow> (\<exists>p. deCasteljau points u = Some p))
   \<and> (length points \<noteq> 1 \<longrightarrow>
        deCasteljau points u = deCasteljau (interpolateLevel points u) u
        \<and> length (interpolateLevel points u) = length points - 1)
   \<and> deCasteljau [] u = None"
proof (intro conjI impI)
  assume "points \<noteq> []"
  then show "\<exists>p. deCasteljau points u = Some p" by (rule deCasteljau_returns)
next
  assume "length points \<noteq> 1"
  then show "deCasteljau points u = deCasteljau (interpolateLevel points u) u"
    by (subst deCasteljau.simps) simp
next
  show "length (interpolateLevel points u) = length points - 1"
    by (rule length_interpolateLevel)
next
  show "deCasteljau [] u = None"
    using deCasteljau_Some_nonempty [of "[]" u] by (cases "deCasteljau [] u") auto
qed

theorem deCasteljau_terminates_witness:
  "(\<exists>p. deCasteljau [\<lparr>px = 0, py = 0\<rparr>, \<lparr>px = 1, py = 2\<rparr>, \<lparr>px = 3, py = 3\<rparr>] (1 / 3) = Some p)
   \<and> length (interpolateLevel [\<lparr>px = 0, py = 0\<rparr>, \<lparr>px = 1, py = 2\<rparr>, \<lparr>px = 3, py = 3\<rparr>] (1 / 3)) = 2"
proof -
  let ?points = "[\<lparr>px = 0, py = 0\<rparr>, \<lparr>px = 1, py = 2\<rparr>, \<lparr>px = 3, py = (3::real)\<rparr>]"
  have "?points \<noteq> []" and "length ?points \<noteq> 1" by simp_all
  with deCasteljau_terminates [of ?points "1 / 3"]
  have "(\<exists>p. deCasteljau ?points (1 / 3) = Some p)
      \<and> length (interpolateLevel ?points (1 / 3)) = length ?points - 1"
    by blast
  then show ?thesis by simp
qed

section \<open>De Casteljau and the Bernstein form\<close>

lemma choose_step:
  "real (n choose j) * (real (n - j) / real (Suc j)) = real (n choose Suc j)"
proof -
  have "Suc j * (n choose Suc j) = (n - j) * (n choose j)"
    by (simp only: binomial_absorption binomial_absorb_comp)
  then have "real (Suc j) * real (n choose Suc j) = real (n - j) * real (n choose j)"
    by (metis of_nat_mult)
  then show ?thesis
    by (simp add: field_simps)
qed

lemma binomial_loop:
  "j \<le> n \<Longrightarrow>
   fold (\<lambda>i result. result * (real_of_int (int n + 1 - i) / real_of_int i)) [1..int j] 1
     = real (n choose j)"
proof (induction j)
  case 0
  then show ?case by simp
next
  case (Suc j)
  let ?f = "\<lambda>i result. result * (real_of_int (int n + 1 - i) / real_of_int i)"
  have IH: "fold ?f [1..int j] 1 = real (n choose j)"
    using Suc by simp
  have split: "[1..int (Suc j)] = [1..int j] @ [int (Suc j)]"
    by (simp add: upto_rec2)
  have "fold ?f [1..int (Suc j)] 1 = ?f (int (Suc j)) (fold ?f [1..int j] 1)"
    unfolding split by simp
  also have "\<dots> = real (n choose j) * (real_of_int (int n + 1 - int (Suc j)) / real (Suc j))"
    unfolding IH by simp
  also have "real_of_int (int n + 1 - int (Suc j)) = real (n - j)"
    using Suc.prems by (simp add: of_nat_diff)
  also have "real (n choose j) * (real (n - j) / real (Suc j)) = real (n choose Suc j)"
    by (rule choose_step)
  finally show ?case .
qed

lemma binomial_num_choose: "j \<le> n \<Longrightarrow> binomial_num (int n) (int j) = real (n choose j)"
  using binomial_loop [of j n] by (auto simp: binomial_num_def)

lemma bernstein_nat:
  "i \<le> n \<Longrightarrow> bernstein (int i) (int n) u = real (n choose i) * (1 - u) ^ (n - i) * u ^ i"
  by (simp add: bernstein_def binomial_num_choose nat_diff_distrib' flip: of_nat_diff)

lemma fold_point_sum:
  "fold (\<lambda>i acc. \<lparr>px = px acc + f i, py = py acc + g i\<rparr>) is acc0
     = \<lparr>px = px acc0 + sum_list (map f is), py = py acc0 + sum_list (map g is)\<rparr>"
  for f g :: "nat \<Rightarrow> real"
  by (induction "is" arbitrary: acc0) (simp_all add: add.assoc)

lemma evaluateBezier_sum:
  "evaluateBezier points u =
     \<lparr>px = (\<Sum>i<length points. px (points ! i) * bernstein (int i) (int (length points) - 1) u),
      py = (\<Sum>i<length points. py (points ! i) * bernstein (int i) (int (length points) - 1) u)\<rparr>"
  by (simp add: evaluateBezier_def Let_def fold_point_sum interv_sum_list_conv_sum_set_nat
      atLeast0LessThan)

lemma bernstein_sum_step:
  fixes c :: "nat \<Rightarrow> real"
  shows "(\<Sum>i<Suc m. ((1 - u) * c i + u * c (Suc i)) * (real (m choose i) * (1 - u) ^ (m - i) * u ^ i))
       = (\<Sum>i<Suc (Suc m). c i * (real (Suc m choose i) * (1 - u) ^ (Suc m - i) * u ^ i))"
proof -
  let ?h = "\<lambda>i. c i * (real (m choose i) * (1 - u) ^ (Suc m - i) * u ^ i)"
  let ?g = "\<lambda>i. c i * (real (Suc m choose i) * (1 - u) ^ (Suc m - i) * u ^ i)"
  let ?b = "\<lambda>i. c (Suc i) * (real (m choose i) * (1 - u) ^ (m - i) * u ^ Suc i)"
  have "(\<Sum>i<Suc (Suc m). ?g i) = ?g 0 + (\<Sum>i<Suc m. ?g (Suc i))"
    by (rule sum.lessThan_Suc_shift)
  also have "(\<Sum>i<Suc m. ?g (Suc i)) = (\<Sum>i<Suc m. ?b i + ?h (Suc i))"
    by (rule sum.cong) (simp_all add: algebra_simps)
  also have "\<dots> = (\<Sum>i<Suc m. ?b i) + (\<Sum>i<Suc m. ?h (Suc i))"
    by (rule sum.distrib)
  finally have "(\<Sum>i<Suc (Suc m). ?g i) = (\<Sum>i<Suc m. ?b i) + (?h 0 + (\<Sum>i<Suc m. ?h (Suc i)))"
    by simp
  also have "?h 0 + (\<Sum>i<Suc m. ?h (Suc i)) = (\<Sum>i<Suc (Suc m). ?h i)"
    by (rule sum.lessThan_Suc_shift [symmetric])
  also have "\<dots> = (\<Sum>i<Suc m. ?h i)"
    by simp
  also have "\<dots> = (\<Sum>i<Suc m. (1 - u) * c i * (real (m choose i) * (1 - u) ^ (m - i) * u ^ i))"
    by (rule sum.cong) (simp_all add: Suc_diff_le)
  finally have "(\<Sum>i<Suc (Suc m). ?g i)
      = (\<Sum>i<Suc m. ?b i + (1 - u) * c i * (real (m choose i) * (1 - u) ^ (m - i) * u ^ i))"
    by (simp only: sum.distrib)
  also have "\<dots> = (\<Sum>i<Suc m. ((1 - u) * c i + u * c (Suc i)) * (real (m choose i) * (1 - u) ^ (m - i) * u ^ i))"
    by (rule sum.cong) (simp_all add: algebra_simps)
  finally show ?thesis by simp
qed

lemma bernstein_level_sum:
  fixes c :: "nat \<Rightarrow> real"
  shows "(\<Sum>i<Suc m. ((1 - u) * c i + u * c (i + 1)) * bernstein (int i) (int (Suc m) - 1) u)
       = (\<Sum>i<Suc (Suc m). c i * bernstein (int i) (int (Suc (Suc m)) - 1) u)"
proof -
  have "(\<Sum>i<Suc m. ((1 - u) * c i + u * c (i + 1)) * bernstein (int i) (int (Suc m) - 1) u)
      = (\<Sum>i<Suc m. ((1 - u) * c i + u * c (Suc i)) * (real (m choose i) * (1 - u) ^ (m - i) * u ^ i))"
    by (rule sum.cong) (simp_all add: bernstein_nat [of _ m u, simplified])
  also have "\<dots> = (\<Sum>i<Suc (Suc m). c i * (real (Suc m choose i) * (1 - u) ^ (Suc m - i) * u ^ i))"
    by (rule bernstein_sum_step)
  also have "\<dots> = (\<Sum>i<Suc (Suc m). c i * bernstein (int i) (int (Suc (Suc m)) - 1) u)"
    by (rule sum.cong) (simp_all add: bernstein_nat [of _ "Suc m" u, simplified])
  finally show ?thesis .
qed

lemma evaluateBezier_interpolateLevel:
  assumes "2 \<le> length points"
  shows "evaluateBezier (interpolateLevel points u) u = evaluateBezier points u"
proof -
  from assms obtain m where len: "length points = Suc (Suc m)"
    by (metis Suc_le_D numeral_2_eq_2 Suc_le_mono le0 add_2_eq_Suc' le_Suc_ex)
  have lev: "length (interpolateLevel points u) = Suc m"
    by (simp add: interpolateLevel_eq len)
  have nth_x: "px (interpolateLevel points u ! i) = (1 - u) * px (points ! i) + u * px (points ! (i + 1))"
    and nth_y: "py (interpolateLevel points u ! i) = (1 - u) * py (points ! i) + u * py (points ! (i + 1))"
    if "i < Suc m" for i
    using that by (simp_all add: interpolateLevel_eq len del: upt_Suc)
  have "(\<Sum>i<Suc m. px (interpolateLevel points u ! i) * bernstein (int i) (int (Suc m) - 1) u)
      = (\<Sum>i<Suc m. ((1 - u) * px (points ! i) + u * px (points ! (i + 1))) * bernstein (int i) (int (Suc m) - 1) u)"
    by (rule sum.cong) (simp_all only: nth_x lessThan_iff)
  also have "\<dots> = (\<Sum>i<Suc (Suc m). px (points ! i) * bernstein (int i) (int (Suc (Suc m)) - 1) u)"
    by (rule bernstein_level_sum)
  finally have X: "(\<Sum>i<Suc m. px (interpolateLevel points u ! i) * bernstein (int i) (int (Suc m) - 1) u)
      = (\<Sum>i<Suc (Suc m). px (points ! i) * bernstein (int i) (int (Suc (Suc m)) - 1) u)" .
  have "(\<Sum>i<Suc m. py (interpolateLevel points u ! i) * bernstein (int i) (int (Suc m) - 1) u)
      = (\<Sum>i<Suc m. ((1 - u) * py (points ! i) + u * py (points ! (i + 1))) * bernstein (int i) (int (Suc m) - 1) u)"
    by (rule sum.cong) (simp_all only: nth_y lessThan_iff)
  also have "\<dots> = (\<Sum>i<Suc (Suc m). py (points ! i) * bernstein (int i) (int (Suc (Suc m)) - 1) u)"
    by (rule bernstein_level_sum)
  finally have Y: "(\<Sum>i<Suc m. py (interpolateLevel points u ! i) * bernstein (int i) (int (Suc m) - 1) u)
      = (\<Sum>i<Suc (Suc m). py (points ! i) * bernstein (int i) (int (Suc (Suc m)) - 1) u)" .
  show ?thesis
    unfolding evaluateBezier_sum lev len by (simp only: X Y)
qed

lemma evaluateBezier_single: "length points = 1 \<Longrightarrow> evaluateBezier points u = points ! 0"
  by (simp add: evaluateBezier_sum bernstein_def binomial_num_def)

lemma deCasteljau_evaluateBezier:
  "points \<noteq> [] \<Longrightarrow> deCasteljau points u = Some (evaluateBezier points u)"
proof (induction "length points" arbitrary: points)
  case 0
  then show ?case by simp
next
  case (Suc m)
  show ?case
  proof (cases "m = 0")
    case True
    with Suc.hyps(2) have "length points = 1" by simp
    then show ?thesis
      by (subst deCasteljau.simps) (simp add: evaluateBezier_single)
  next
    case False
    with Suc.hyps(2) have len: "length (interpolateLevel points u) = m" "length points \<noteq> 1"
      "2 \<le> length points"
      by (simp_all add: interpolateLevel_eq)
    with False have "interpolateLevel points u \<noteq> []" by auto
    with Suc.hyps(1) [of "interpolateLevel points u"] len
    have "deCasteljau (interpolateLevel points u) u
            = Some (evaluateBezier (interpolateLevel points u) u)" by auto
    with len show ?thesis
      by (subst deCasteljau.simps) (simp add: evaluateBezier_interpolateLevel)
  qed
qed

text \<open>
  C3. For every non-empty list of control points and every \<open>u\<close>, in particular every
  \<open>u\<close> between 0 and 1, \<open>deCasteljau\<close> returns the point that \<open>evaluateBezier\<close>
  computes from the Bernstein basis; over exact arithmetic the two are equal.
\<close>

theorem deCasteljau_equals_evaluateBezier:
  "points \<noteq> [] \<Longrightarrow> 0 \<le> u \<Longrightarrow> u \<le> 1 \<Longrightarrow> deCasteljau points u = Some (evaluateBezier points u)"
  by (rule deCasteljau_evaluateBezier)

theorem deCasteljau_equals_evaluateBezier_witness:
  "deCasteljau [\<lparr>px = 0, py = 0\<rparr>, \<lparr>px = 1, py = 2\<rparr>, \<lparr>px = 3, py = 3\<rparr>] (1 / 3)
     = Some (evaluateBezier [\<lparr>px = 0, py = 0\<rparr>, \<lparr>px = 1, py = 2\<rparr>, \<lparr>px = 3, py = 3\<rparr>] (1 / 3))
   \<and> evaluateBezier [\<lparr>px = 0, py = 0\<rparr>, \<lparr>px = 1, py = 2\<rparr>, \<lparr>px = 3, py = 3\<rparr>] (1 / 3)
     = \<lparr>px = 7 / 9, py = 11 / 9\<rparr>"
  using deCasteljau_equals_evaluateBezier
    [of "[\<lparr>px = 0, py = 0\<rparr>, \<lparr>px = 1, py = 2\<rparr>, \<lparr>px = 3, py = 3\<rparr>]" "1 / 3"]
  by (simp add: evaluateBezier_quadratic power2_eq_square)

section \<open>Trimming\<close>

text \<open>
  C2. The trimmed control polygon is required to define the restriction of the curve to
  \<open>[u1, u2]\<close>. It does not in \<open>getTrimmedControlPoints\<close>: for the control points
  \<open>(0,0), (1,2), (3,3), (4,0)\<close> and the range \<open>u1 = 1/4\<close>, \<open>u2 = 3/4\<close> the code
  returns the polygon below, whose curve at \<open>v = 0\<close>, \<open>1/2\<close>, \<open>1\<close> differs from
  the original curve at \<open>u = 1/4\<close>, \<open>1/2\<close>, \<open>3/4\<close>.
\<close>

theorem getTrimmedControlPoints_example:
  "getTrimmedControlPoints
      [\<lparr>px = 0, py = 0\<rparr>, \<lparr>px = 1, py = 2\<rparr>, \<lparr>px = 3, py = 3\<rparr>, \<lparr>px = 4, py = 0\<rparr>]
      \<lparr>u1 = 1 / 4, u2 = 3 / 4\<rparr>
     = map fin_point [\<lparr>px = 33 / 16, py = 33 / 32\<rparr>, \<lparr>px = 19 / 8, py = 1\<rparr>,
                      \<lparr>px = 43 / 16, py = 13 / 16\<rparr>, \<lparr>px = 95 / 32, py = 27 / 64\<rparr>]
   \<and> evaluateBezier [\<lparr>px = 33 / 16, py = 33 / 32\<rparr>, \<lparr>px = 19 / 8, py = 1\<rparr>,
                      \<lparr>px = 43 / 16, py = 13 / 16\<rparr>, \<lparr>px = 95 / 32, py = 27 / 64\<rparr>] 0
       = \<lparr>px = 33 / 16, py = 33 / 32\<rparr>
   \<and> evaluateBezier [\<lparr>px = 0, py = 0\<rparr>, \<lparr>px = 1, py = 2\<rparr>, \<lparr>px = 3, py = 3\<rparr>, \<lparr>px = 4, py = 0\<rparr>] (1 / 4)
       = \<lparr>px = 29 / 32, py = 81 / 64\<rparr>
   \<and> evaluateBezier [\<lparr>px = 33 / 16, py = 33 / 32\<rparr>, \<lparr>px = 19 / 8, py = 1\<rparr>,
                      \<lparr>px = 43 / 16, py = 13 / 16\<rparr>, \<lparr>px = 95 / 32, py = 27 / 64\<rparr>] (1 / 2)
       = \<lparr>px = 647 / 256, py = 441 / 512\<rparr>
   \<and> evaluateBezier [\<lparr>px = 0, py = 0\<rparr>, \<lparr>px = 1, py = 2\<rparr>, \<lparr>px = 3, py = 3\<rparr>, \<lparr>px = 4, py = 0\<rparr>] (1 / 2)
       = \<lparr>px = 2, py = 15 / 8\<rparr>
   \<and> evaluateBezier [\<lparr>px = 33 / 16, py = 33 / 32\<rparr>, \<lparr>px = 19 / 8, py = 1\<rparr>,
                      \<lparr>px = 43 / 16, py = 13 / 16\<rparr>, \<lparr>px = 95 / 32, py = 27 / 64\<rparr>] 1
       = \<lparr>px = 95 / 32, py = 27 / 64\<rparr>
   \<and> evaluateBezier [\<lparr>px = 0, py = 0\<rparr>, \<lparr>px = 1, py = 2\<rparr>, \<lparr>px = 3, py = 3\<rparr>, \<lparr>px = 4, py = 0\<rparr>] (3 / 4)
       = \<lparr>px = 99 / 32, py = 99 / 64\<rparr>"
proof (intro conjI)
  show "getTrimmedControlPoints
      [\<lparr>px = 0, py = 0\<rparr>, \<lparr>px = 1, py = 2\<rparr>, \<lparr>px = 3, py = 3\<rparr>, \<lparr>px = 4, py = 0\<rparr>]
      \<lparr>u1 = 1 / 4, u2 = 3 / 4\<rparr>
     = map fin_point [\<lparr>px = 33 / 16, py = 33 / 32\<rparr>, \<lparr>px = 19 / 8, py = 1\<rparr>,
                      \<lparr>px = 43 / 16, py = 13 / 16\<rparr>, \<lparr>px = 95 / 32, py = 27 / 64\<rparr>]"
    by (simp add: getTrimmedControlPoints_def interpolateLevel_def fin_point_def
        upt_rec [of _ "numeral _"] upt_rec [of 0 "Suc _"] nth_Cons' Let_def)
qed (simp_all add: evaluateBezier_cubic power2_eq_square power3_eq_cube)

section \<open>The Cox-de Boor recursion\<close>

lemma coxDeBoor_step:
  assumes "i + Suc k + 1 < length knots"
    and "coxDeBoor i k u knots = Some r1" and "coxDeBoor (i + 1) k u knots = Some r2"
  shows "coxDeBoor i (Suc k) u knots =
           Some ((if knots ! (i + Suc k) - knots ! i = 0 then 0
                  else (u - knots ! i) / (knots ! (i + Suc k) - knots ! i) * r1)
               + (if knots ! (i + Suc k + 1) - knots ! (i + 1) = 0 then 0
                  else (knots ! (i + Suc k + 1) - u)
                         / (knots ! (i + Suc k + 1) - knots ! (i + 1)) * r2))"
proof -
  have reads: "rd knots (int i) = Some (knots ! i)"
    "rd knots (int i + 1) = Some (knots ! (i + 1))"
    "rd knots (int i + int (Suc k)) = Some (knots ! (i + Suc k))"
    "rd knots (int i + int (Suc k) + 1) = Some (knots ! (i + Suc k + 1))"
    using assms(1) rd_in_range [of i knots] rd_in_range [of "i + 1" knots]
      rd_in_range [of "i + Suc k" knots] rd_in_range [of "i + Suc k + 1" knots]
    by (simp_all add: algebra_simps)
  show ?thesis
    by (simp only: coxDeBoor.simps Let_def reads assms(2,3)) simp
qed

lemma coxDeBoor_finite:
  "i + k + 1 < length knots \<Longrightarrow> \<exists>r. coxDeBoor i k u knots = Some r"
proof (induction k arbitrary: i)
  case 0
  then show ?case by simp
next
  case (Suc k)
  from Suc.prems obtain r1 where r1: "coxDeBoor i k u knots = Some r1"
    using Suc.IH [of i] by auto
  from Suc.prems obtain r2 where r2: "coxDeBoor (i + 1) k u knots = Some r2"
    using Suc.IH [of "i + 1"] by auto
  from Suc.prems show ?case
    by (simp only: coxDeBoor_step [OF _ r1 r2]) simp
qed

text \<open>
  C8. For every index \<open>i\<close>, degree \<open>k\<close>, parameter \<open>u\<close> and knot vector long
  enough for the indices up to \<open>i + k + 1\<close>, \<open>coxDeBoor\<close> returns a finite number:
  no division by zero is performed, since a quotient by zero would be \<open>None\<close> and would
  make the result \<open>None\<close>. For a degree \<open>k \<ge> 1\<close> the result is the sum of two terms,
  each of which is 0 when its denominator (\<open>knots[i+k] - knots[i]\<close> for the first,
  \<open>knots[i+k+1] - knots[i+1]\<close> for the second) is 0, and the quotient times the basis
  function of degree \<open>k - 1\<close> otherwise.
\<close>

theorem coxDeBoor_defined:
  assumes "i + k + 1 < length knots"
  shows "(\<exists>r. coxDeBoor i k u knots = Some r)
    \<and> (\<forall>k'. k = Suc k' \<longrightarrow>
          (\<exists>r1 r2. coxDeBoor i k' u knots = Some r1 \<and> coxDeBoor (i + 1) k' u knots = Some r2
             \<and> coxDeBoor i k u knots =
                 Some ((if knots ! (i + k) - knots ! i = 0 then 0
                        else (u - knots ! i) / (knots ! (i + k) - knots ! i) * r1)
                     + (if knots ! (i + k + 1) - knots ! (i + 1) = 0 then 0
                        else (knots ! (i + k + 1) - u)
                               / (knots ! (i + k + 1) - knots ! (i + 1)) * r2))))"
proof (intro conjI allI impI)
  from assms show "\<exists>r. coxDeBoor i k u knots = Some r" by (rule coxDeBoor_finite)
next
  fix k' assume k: "k = Suc k'"
  with assms obtain r1 where r1: "coxDeBoor i k' u knots = Some r1"
    using coxDeBoor_finite [of i k' knots u] by auto
  from assms k obtain r2 where r2: "coxDeBoor (i + 1) k' u knots = Some r2"
    using coxDeBoor_finite [of "i + 1" k' knots u] by auto
  from assms k have "i + Suc k' + 1 < length knots" by simp
  from coxDeBoor_step [OF this r1 r2] r1 r2 k
  show "\<exists>r1 r2. coxDeBoor i k' u knots = Some r1 \<and> coxDeBoor (i + 1) k' u knots = Some r2
             \<and> coxDeBoor i k u knots =
                 Some ((if knots ! (i + k) - knots ! i = 0 then 0
                        else (u - knots ! i) / (knots ! (i + k) - knots ! i) * r1)
                     + (if knots ! (i + k + 1) - knots ! (i + 1) = 0 then 0
                        else (knots ! (i + k + 1) - u)
                               / (knots ! (i + k + 1) - knots ! (i + 1)) * r2))"
    by blast
qed

theorem coxDeBoor_defined_witness:
  "(\<exists>r. coxDeBoor 0 3 (1 / 2) [0, 0, 0, 0, 1, 1, 1, 1] = Some r)
   \<and> (\<exists>r2. coxDeBoor 1 2 (1 / 2) [0, 0, 0, 0, 1, 1, 1, 1] = Some r2
         \<and> coxDeBoor 0 3 (1 / 2) [0, 0, 0, 0, 1, 1, 1, 1] = Some (0 + (1 - 1 / 2) / (1 - 0) * r2))"
proof -
  let ?knots = "[0, 0, 0, 0, 1, 1, 1, 1::real]"
  have "0 + 3 + 1 < length ?knots" by simp
  from coxDeBoor_defined [OF this, of "1 / 2"]
  have "(\<exists>r. coxDeBoor 0 3 (1 / 2) ?knots = Some r)
    \<and> (\<exists>r1 r2. coxDeBoor 0 2 (1 / 2) ?knots = Some r1 \<and> coxDeBoor (0 + 1) 2 (1 / 2) ?knots = Some r2
         \<and> coxDeBoor 0 3 (1 / 2) ?knots =
             Some ((if ?knots ! (0 + 3) - ?knots ! 0 = 0 then 0
                    else (1 / 2 - ?knots ! 0) / (?knots ! (0 + 3) - ?knots ! 0) * r1)
                 + (if ?knots ! (0 + 3 + 1) - ?knots ! (0 + 1) = 0 then 0
                    else (?knots ! (0 + 3 + 1) - 1 / 2)
                           / (?knots ! (0 + 3 + 1) - ?knots ! (0 + 1)) * r2)))"
    by (simp only: numeral_3_eq_3)
  then show ?thesis
    by (auto simp: numeral_3_eq_3)
qed

section \<open>The derivative of a B-spline\<close>

lemma slice_1_m1_eq: "slice_1_m1 xs = butlast (tl xs)"
  by (simp add: slice_1_m1_def butlast_conv_take drop_Suc drop_take)

lemma fold_acc_finite:
  assumes "\<forall>i\<in>set is. \<exists>r. F i = Some r" and "\<forall>i\<in>set is. \<exists>r. G i = Some r"
  shows "\<exists>a b. fold (\<lambda>i acc. \<lparr>px = js_add (px acc) (F i), py = js_add (py acc) (G i)\<rparr>) is
                  \<lparr>px = Some a0, py = Some b0\<rparr> = \<lparr>px = Some a, py = Some b\<rparr>"
  using assms
proof (induction "is" arbitrary: a0 b0)
  case Nil
  then show ?case by simp
next
  case (Cons i "is")
  from Cons.prems obtain r s where "F i = Some r" "G i = Some s" by auto
  with Cons.IH [of "a0 + r" "b0 + s"] Cons.prems show ?case by simp
qed

lemma fold_acc_None:
  "fold (\<lambda>i acc. \<lparr>px = js_add (px acc) (F i), py = js_add (py acc) (G i)\<rparr>) is
        \<lparr>px = None, py = None\<rparr> = \<lparr>px = None, py = None\<rparr>"
  by (induction "is") simp_all

lemma fold_acc_nonfinite:
  assumes "j \<in> set is" and "F j = None" and "G j = None"
  shows "fold (\<lambda>i acc. \<lparr>px = js_add (px acc) (F i), py = js_add (py acc) (G i)\<rparr>) is acc0
           = \<lparr>px = None, py = None\<rparr>"
  using assms
proof (induction "is" arbitrary: acc0)
  case Nil
  then show ?case by simp
next
  case (Cons i "is")
  show ?case
  proof (cases "i = j")
    case True
    with Cons.prems show ?thesis by (simp add: fold_acc_None)
  next
    case False
    with Cons show ?thesis by simp
  qed
qed

lemma evaluateBSpline_finite:
  assumes "\<forall>i<length cps. \<exists>a b. cps ! i = \<lparr>px = Some a, py = Some b\<rparr>"
    and "\<forall>i<length cps. \<exists>r. coxDeBoor i degree u knots = Some r"
  shows "\<exists>a b. evaluateBSpline cps degree u knots = \<lparr>px = Some a, py = Some b\<rparr>"
  unfolding evaluateBSpline_def Let_def
proof (rule fold_acc_finite)
  show "\<forall>i\<in>set [0..<length cps]. \<exists>r. js_mul (px (cps ! i)) (coxDeBoor i degree u knots) = Some r"
    using assms by fastforce
  show "\<forall>i\<in>set [0..<length cps]. \<exists>r. js_mul (py (cps ! i)) (coxDeBoor i degree u knots) = Some r"
    using assms by fastforce
qed

lemma evaluateBSpline_nonfinite:
  assumes "j < length cps" and "cps ! j = \<lparr>px = None, py = None\<rparr>"
  shows "evaluateBSpline cps degree u knots = \<lparr>px = None, py = None\<rparr>"
  unfolding evaluateBSpline_def Let_def
  by (rule fold_acc_nonfinite [of j]) (use assms in simp_all)

lemma bsplineDerivative_finite:
  assumes deg: "1 \<le> degree"
    and len: "length cps + degree + 1 \<le> length knots"
    and strict: "\<forall>i<length cps - 1. knots ! (i + 1) < knots ! (i + degree + 1)"
  shows "\<exists>a b. bsplineDerivative (map fin_point cps) degree u knots = \<lparr>px = Some a, py = Some b\<rparr>"
proof -
  let ?D = "\<lambda>i. let factor = js_div (Some (real degree))
                               (js_sub (rd knots (int i + int degree + 1)) (rd knots (int i + 1)))
                 in \<lparr>px = js_mul factor (js_sub (px (map fin_point cps ! (i + 1)))
                                               (px (map fin_point cps ! i))),
                     py = js_mul factor (js_sub (py (map fin_point cps ! (i + 1)))
                                               (py (map fin_point cps ! i)))\<rparr>"
  let ?ds = "map ?D [0..<length cps - 1]"
  have D_fin: "\<exists>a b. ?ds ! i = \<lparr>px = Some a, py = Some b\<rparr>" if "i < length ?ds" for i
  proof -
    from that have i: "i < length cps - 1" by simp
    with len have "rd knots (int i + int degree + 1) = Some (knots ! (i + degree + 1))"
      "rd knots (int i + 1) = Some (knots ! (i + 1))"
      using rd_in_range [of "i + degree + 1" knots] rd_in_range [of "i + 1" knots]
      by (simp_all add: algebra_simps)
    moreover from strict i have "knots ! (i + degree + 1) - knots ! (i + 1) \<noteq> 0" by auto
    ultimately show ?thesis
      using i by (simp add: Let_def fin_point_def del: upt_Suc)
  qed
  have cox: "\<exists>r. coxDeBoor i (degree - 1) u (slice_1_m1 knots) = Some r" if "i < length ?ds" for i
  proof (rule coxDeBoor_finite)
    from that len deg show "i + (degree - 1) + 1 < length (slice_1_m1 knots)"
      by (simp add: slice_1_m1_def)
  qed
  have "\<exists>a b. evaluateBSpline ?ds (degree - 1) u (slice_1_m1 knots) = \<lparr>px = Some a, py = Some b\<rparr>"
    by (rule evaluateBSpline_finite) (use D_fin cox in blast)+
  with deg show ?thesis
    by (simp add: bsplineDerivative_def fold_push Let_def)
qed

lemma bsplineDerivative_unguarded:
  assumes deg: "1 \<le> degree"
    and i: "i < length cps - 1" "i + degree + 1 < length knots"
    and zero: "knots ! (i + degree + 1) = knots ! (i + 1)"
  shows "bsplineDerivative cps degree u knots = \<lparr>px = None, py = None\<rparr>"
proof -
  let ?D = "\<lambda>i. let factor = js_div (Some (real degree))
                               (js_sub (rd knots (int i + int degree + 1)) (rd knots (int i + 1)))
                 in \<lparr>px = js_mul factor (js_sub (px (cps ! (i + 1))) (px (cps ! i))),
                     py = js_mul factor (js_sub (py (cps ! (i + 1))) (py (cps ! i)))\<rparr>"
  let ?ds = "map ?D [0..<length cps - 1]"
  from i have "rd knots (int i + int degree + 1) = Some (knots ! (i + degree + 1))"
    "rd knots (int i + 1) = Some (knots ! (i + 1))"
    using rd_in_range [of "i + degree + 1" knots] rd_in_range [of "i + 1" knots]
    by (simp_all add: algebra_simps)
  with zero i have "?ds ! i = \<lparr>px = None, py = None\<rparr>"
    by (simp add: Let_def del: upt_Suc)
  moreover from i have "i < length ?ds" by simp
  ultimately have "evaluateBSpline ?ds (degree - 1) u (slice_1_m1 knots) = \<lparr>px = None, py = None\<rparr>"
    by (rule evaluateBSpline_nonfinite [rotated])
  with deg show ?thesis
    by (simp add: bsplineDerivative_def fold_push Let_def)
qed

text \<open>
  C9. For a degree of at least 1 and a knot vector of at least
  \<open>length controlPoints + degree + 1\<close> knots, \<open>bsplineDerivative\<close> on finite control
  points returns a finite vector whenever \<open>knots[i+1] < knots[i+degree+1]\<close> for every
  \<open>i\<close> from 0 to \<open>n - 1\<close>, \<open>n\<close> the number of control points less one: no division
  by zero occurs, in the factors or in the basis functions. The factor has no guard:
  when \<open>knots[i+degree+1] = knots[i+1]\<close> for one such \<open>i\<close>, the division by zero is
  performed and both coordinates of the result are not finite.
\<close>

theorem bsplineDerivative_defined:
  assumes "1 \<le> degree" and "length cps + degree + 1 \<le> length knots"
  shows "((\<forall>i<length cps - 1. knots ! (i + 1) < knots ! (i + degree + 1)) \<longrightarrow>
            (\<exists>a b. bsplineDerivative (map fin_point cps) degree u knots
                      = \<lparr>px = Some a, py = Some b\<rparr>))
       \<and> ((\<exists>i<length cps - 1. knots ! (i + degree + 1) = knots ! (i + 1)) \<longrightarrow>
            bsplineDerivative (map fin_point cps) degree u knots = \<lparr>px = None, py = None\<rparr>)"
proof (intro conjI impI)
  assume "\<forall>i<length cps - 1. knots ! (i + 1) < knots ! (i + degree + 1)"
  with assms show "\<exists>a b. bsplineDerivative (map fin_point cps) degree u knots
                      = \<lparr>px = Some a, py = Some b\<rparr>"
    by (rule bsplineDerivative_finite)
next
  assume "\<exists>i<length cps - 1. knots ! (i + degree + 1) = knots ! (i + 1)"
  then obtain i where i: "i < length cps - 1" "knots ! (i + degree + 1) = knots ! (i + 1)"
    by blast
  with assms have "i < length (map fin_point cps) - 1" "i + degree + 1 < length knots"
    by simp_all
  with assms(1) show "bsplineDerivative (map fin_point cps) degree u knots = \<lparr>px = None, py = None\<rparr>"
    using i(2) by (rule bsplineDerivative_unguarded)
qed

theorem bsplineDerivative_defined_witness:
  "(\<exists>a b. bsplineDerivative
             (map fin_point [\<lparr>px = 0, py = 0\<rparr>, \<lparr>px = 1, py = 2\<rparr>, \<lparr>px = 3, py = 3\<rparr>, \<lparr>px = 4, py = 0\<rparr>])
             3 (1 / 2) [0, 0, 0, 0, 1, 1, 1, 1] = \<lparr>px = Some a, py = Some b\<rparr>)
   \<and> bsplineDerivative
        (map fin_point [\<lparr>px = 0, py = 0\<rparr>, \<lparr>px = 1, py = 2\<rparr>, \<lparr>px = 3, py = 3\<rparr>, \<lparr>px = 4, py = 0\<rparr>])
        3 (1 / 2) [0, 0, 0, 0, 0, 1, 1, 1] = \<lparr>px = None, py = None\<rparr>"
proof -
  let ?cps = "[\<lparr>px = 0, py = 0\<rparr>, \<lparr>px = 1, py = 2\<rparr>, \<lparr>px = 3, py = 3\<rparr>, \<lparr>px = 4, py = (0::real)\<rparr>]"
  let ?good = "[0, 0, 0, 0, 1, 1, 1, 1::real]"
  let ?bad = "[0, 0, 0, 0, 0, 1, 1, 1::real]"
  have deg: "(1::nat) \<le> 3" by simp
  have len: "length ?cps + 3 + 1 \<le> length ?good" "length ?cps + 3 + 1 \<le> length ?bad"
    by simp_all
  have strict: "\<forall>i<length ?cps - 1. ?good ! (i + 1) < ?good ! (i + 3 + 1)"
    by (auto simp: nth_Cons' less_Suc_eq numeral_3_eq_3)
  have zero: "\<exists>i<length ?cps - 1. ?bad ! (i + 3 + 1) = ?bad ! (i + 1)"
    by (rule exI [of _ 0]) simp
  from bsplineDerivative_defined [OF deg len(1), of "1 / 2"] strict
    bsplineDerivative_defined [OF deg len(2), of "1 / 2"] zero
  show ?thesis by blast
qed

section \<open>The derivative against the specification\<close>

lemma js_add_assoc: "js_add (js_add a b) c = js_add a (js_add b c)"
  by (cases a; cases b; cases c) (simp_all add: js_add_def)

lemma js_mul_commute: "js_mul a b = js_mul b a"
  by (cases a; cases b) (simp_all add: js_mul_def)

lemma js_add_zero: "js_add a (Some 0) = a" "js_add (Some 0) a = a"
  by (cases a; simp add: js_add_def)+

lemma fold_acc_js_sum:
  "fold (\<lambda>i acc. \<lparr>px = js_add (px acc) (F i), py = js_add (py acc) (G i)\<rparr>) is acc0
     = \<lparr>px = js_add (px acc0) (js_sum (map F is)), py = js_add (py acc0) (js_sum (map G is))\<rparr>"
  by (induction "is" arbitrary: acc0) (simp_all add: js_add_zero js_add_assoc)

text \<open>
  Away from the final knot the right-endpoint rule is not used, and the code computes
  the basis, the curve and the derivative of the specification.
\<close>

lemma coxDeBoor_eq_basis_spec:
  assumes "\<not> js_eq (Some u) (rd knots (int (length knots) - 1))"
  shows "coxDeBoor i k u knots = basis_spec p i k u knots"
proof (induction k arbitrary: i)
  case 0
  from assms show ?case by simp
next
  case (Suc k)
  show ?case
    by (simp only: coxDeBoor.simps basis_spec.simps Suc.IH)
qed

lemma evaluateBSpline_eq_evaluate_spec:
  assumes "\<not> js_eq (Some u) (rd knots (int (length knots) - 1))"
  shows "evaluateBSpline P degree u knots = evaluate_spec P degree u knots"
  by (simp add: evaluateBSpline_def evaluate_spec_def Let_def fold_acc_js_sum js_add_zero
      coxDeBoor_eq_basis_spec [OF assms, of _ degree degree]
      js_mul_commute [of "basis_spec _ _ _ _ _"])

lemma bsplineDerivative_eq_derivative_spec:
  assumes "\<not> js_eq (Some u) (rd (butlast (tl knots)) (int (length (butlast (tl knots))) - 1))"
  shows "bsplineDerivative P degree u knots = derivative_spec P degree u knots"
proof (cases "degree = 0")
  case True
  then show ?thesis by (simp add: bsplineDerivative_def derivative_spec_def)
next
  case False
  then show ?thesis
    by (simp add: bsplineDerivative_def derivative_spec_def Let_def fold_push slice_1_m1_eq
        evaluateBSpline_eq_evaluate_spec [OF assms])
qed

text \<open>
  C5. \<open>bsplineDerivative\<close> is required to be the curve of degree \<open>degree - 1\<close> over
  the control points \<open>D i\<close> and the knot vector without its first and last knot. At the
  final knot it is not: for the control points \<open>(0,0), (1,1), (2,2), (3,3)\<close> of degree
  3 over the knots \<open>0, 0, 0, 0, 1, 1, 1, 1\<close> every \<open>D i\<close> is \<open>(3, 3)\<close>, and so is the
  curve over them at \<open>u = 1\<close>, while \<open>bsplineDerivative\<close> returns \<open>(0, 0)\<close> there;
  at \<open>u = 1/2\<close> both are \<open>(3, 3)\<close>.
\<close>

theorem bsplineDerivative_final_knot:
  "bsplineDerivative
      (map fin_point [\<lparr>px = 0, py = 0\<rparr>, \<lparr>px = 1, py = 1\<rparr>, \<lparr>px = 2, py = 2\<rparr>, \<lparr>px = 3, py = 3\<rparr>])
      3 1 [0, 0, 0, 0, 1, 1, 1, 1] = \<lparr>px = Some 0, py = Some 0\<rparr>
   \<and> derivative_spec
      (map fin_point [\<lparr>px = 0, py = 0\<rparr>, \<lparr>px = 1, py = 1\<rparr>, \<lparr>px = 2, py = 2\<rparr>, \<lparr>px = 3, py = 3\<rparr>])
      3 1 [0, 0, 0, 0, 1, 1, 1, 1] = \<lparr>px = Some 3, py = Some 3\<rparr>
   \<and> bsplineDerivative
      (map fin_point [\<lparr>px = 0, py = 0\<rparr>, \<lparr>px = 1, py = 1\<rparr>, \<lparr>px = 2, py = 2\<rparr>, \<lparr>px = 3, py = 3\<rparr>])
      3 (1 / 2) [0, 0, 0, 0, 1, 1, 1, 1] = \<lparr>px = Some 3, py = Some 3\<rparr>
   \<and> derivative_spec
      (map fin_point [\<lparr>px = 0, py = 0\<rparr>, \<lparr>px = 1, py = 1\<rparr>, \<lparr>px = 2, py = 2\<rparr>, \<lparr>px = 3, py = 3\<rparr>])
      3 (1 / 2) [0, 0, 0, 0, 1, 1, 1, 1] = \<lparr>px = Some 3, py = Some 3\<rparr>"
  by (intro conjI)
    (simp_all add: bsplineDerivative_def derivative_spec_def evaluateBSpline_def evaluate_spec_def
      slice_1_m1_def fin_point_def Let_def upt_rec [of _ "numeral _"] upt_rec [of 0 "Suc _"]
      numeral_2_eq_2 rd_def js_le_def js_lt_def js_eq_def nth_Cons')

section \<open>Uniform knot vectors\<close>

lemma generateUniformKnots_eq:
  "generateUniformKnots n k =
     replicate (Suc k) 0 @ map (\<lambda>i. real i / (real n - real k)) [1..<n - k] @ replicate (Suc k) 1"
proof -
  have "map (\<lambda>i. c) [0..<Suc k] = replicate (Suc k) c" for c :: real
    by (simp only: map_replicate_const length_upt diff_zero)
  then show ?thesis
    by (simp only: generateUniformKnots_def Let_def fold_push append_Nil append_assoc)
qed

lemma length_generateUniformKnots:
  "length (generateUniformKnots n k) = 2 * (k + 1) + (n - k - 1)"
  by (simp add: generateUniformKnots_eq)

lemma nonDecreasingLoop_iff:
  "nonDecreasingLoop knots is = (\<forall>i\<in>set is. knots ! i \<le> knots ! (i + 1))"
  by (induction "is") (auto simp: not_less)

lemma validateKnots_iff:
  "validateKnots knots n k =
     (length knots = n + k + 1 \<and> (\<forall>i<length knots - 1. knots ! i \<le> knots ! (i + 1)))"
  by (auto simp: validateKnots_def nonDecreasingLoop_iff)

lemma sorted_generateUniformKnots: "sorted (generateUniformKnots n k)"
proof -
  let ?f = "\<lambda>i. real i / (real n - real k)"
  have mid: "0 \<le> ?f i \<and> ?f i \<le> 1" if "i \<in> set [1..<n - k]" for i
    using that by (auto simp: field_simps of_nat_diff)
  have "sorted (map ?f [1..<n - k])"
  proof (cases "k < n")
    case True
    then have "mono_on UNIV ?f"
      by (auto intro!: mono_onI divide_right_mono)
    then show ?thesis
      by (auto simp: sorted_map intro!: sorted_wrt_mono_rel [OF _ sorted_upt] dest: mono_onD)
  next
    case False
    then show ?thesis by simp
  qed
  with mid show ?thesis
    unfolding generateUniformKnots_eq
    by (auto simp: sorted_append sorted_replicate intro: order_trans)
qed

lemma validateKnots_generateUniformKnots:
  "k < n \<Longrightarrow> validateKnots (generateUniformKnots n k) n k"
  unfolding validateKnots_iff
  using sorted_generateUniformKnots [of n k]
  by (auto simp: length_generateUniformKnots intro: sorted_nth_mono)

lemma drop_generateUniformKnots:
  assumes "k < n"
  shows "drop n (generateUniformKnots n k) = replicate (k + 1) 1"
proof -
  let ?front = "replicate (Suc k) (0::real) @ map (\<lambda>i. real i / (real n - real k)) [1..<n - k]"
  have "generateUniformKnots n k = ?front @ replicate (k + 1) 1"
    by (simp add: generateUniformKnots_eq)
  moreover from assms have "length ?front = n" by simp
  ultimately show ?thesis
    by (metis append_eq_conv_conj)
qed

lemma generateUniformKnots_front:
  assumes "k < n"
  shows "take (k + 1) (generateUniformKnots n k) = replicate (k + 1) 0"
    and "\<forall>i. 1 \<le> i \<and> i < n - k \<longrightarrow> generateUniformKnots n k ! (k + i) = real i / real (n - k)"
    and "length (generateUniformKnots n k) = n + k + 1"
  using assms
  by (auto simp: generateUniformKnots_eq nth_append of_nat_diff)

text \<open>
  C6, as the code has it. For a degree \<open>k\<close> smaller than the number \<open>n\<close> of control
  points, \<open>generateUniformKnots n k\<close> is a non-decreasing knot vector of length
  \<open>n + k + 1\<close>: \<open>k + 1\<close> zeros, then the knots \<open>i / (n - k)\<close> for \<open>i\<close> from 1 to
  \<open>n - k - 1\<close>, then \<open>k + 1\<close> ones; and \<open>validateKnots\<close> accepts it.
\<close>

theorem generateUniformKnots_clamped:
  assumes "k < n"
  shows "length (generateUniformKnots n k) = n + k + 1
    \<and> sorted (generateUniformKnots n k)
    \<and> take (k + 1) (generateUniformKnots n k) = replicate (k + 1) 0
    \<and> (\<forall>i. 1 \<le> i \<and> i < n - k \<longrightarrow> generateUniformKnots n k ! (k + i) = real i / real (n - k))
    \<and> drop n (generateUniformKnots n k) = replicate (k + 1) 1
    \<and> validateKnots (generateUniformKnots n k) n k"
  using assms generateUniformKnots_front [OF assms] sorted_generateUniformKnots [of n k]
    drop_generateUniformKnots [OF assms] validateKnots_generateUniformKnots [OF assms]
  by blast

theorem generateUniformKnots_clamped_witness:
  "length (generateUniformKnots 5 3) = 9
   \<and> sorted (generateUniformKnots 5 3)
   \<and> take 4 (generateUniformKnots 5 3) = [0, 0, 0, 0]
   \<and> generateUniformKnots 5 3 ! 4 = 1 / 2
   \<and> drop 5 (generateUniformKnots 5 3) = [1, 1, 1, 1]
   \<and> validateKnots (generateUniformKnots 5 3) 5 3"
proof -
  have "(3::nat) < 5" by simp
  from generateUniformKnots_clamped [OF this]
  have "length (generateUniformKnots 5 3) = 5 + 3 + 1"
    and "sorted (generateUniformKnots 5 3)"
    and "take (3 + 1) (generateUniformKnots 5 3) = replicate (3 + 1) 0"
    and "1 \<le> (1::nat) \<and> (1::nat) < 5 - 3 \<longrightarrow> generateUniformKnots 5 3 ! (3 + 1) = real 1 / real (5 - 3)"
    and "drop 5 (generateUniformKnots 5 3) = replicate (3 + 1) 1"
    and "validateKnots (generateUniformKnots 5 3) 5 3"
    by blast+
  then show ?thesis
    by (simp add: numeral_eq_Suc)
qed

text \<open>
  C6 as the specification words it, for every \<open>n\<close> and \<open>k\<close>, fails when \<open>n \<le> k\<close>: for two
  control points and degree 3 the vector has eight knots, not six, and \<open>validateKnots\<close>
  rejects it.
\<close>

theorem generateUniformKnots_length_counterexample:
  "length (generateUniformKnots 2 3) \<noteq> 2 + 3 + 1
   \<and> \<not> validateKnots (generateUniformKnots 2 3) 2 3"
  by (simp add: validateKnots_def length_generateUniformKnots)

section \<open>Partition of unity\<close>

text \<open>
  Below the final knot the basis functions of a non-decreasing knot vector sum to one:
  for \<open>u\<close> in the span \<open>knots[m] \<le> u < knots[m+1]\<close> only the functions with
  \<open>m - k \<le> i \<le> m\<close> can be non-zero, and these sum to one at every degree.
\<close>

lemma coxDeBoor_outside_span:
  assumes srt: "sorted knots" and span: "m + 1 < length knots" "knots ! m \<le> u" "u < knots ! (m + 1)"
  shows "i + k + 1 < length knots \<Longrightarrow> m < i \<or> i + k < m \<Longrightarrow> coxDeBoor i k u knots = Some 0"
proof (induction k arbitrary: i)
  case 0
  then have i: "i \<noteq> m" "i + 1 < length knots" by auto
  have not_in: "\<not> (knots ! i \<le> u \<and> u < knots ! (i + 1))"
  proof (cases "i < m")
    case True
    then have "knots ! (i + 1) \<le> knots ! m"
      using srt span(1) by (intro sorted_nth_mono) auto
    with span(2) show ?thesis by auto
  next
    case False
    with i have "knots ! (m + 1) \<le> knots ! i"
      using srt by (intro sorted_nth_mono) auto
    with span(3) show ?thesis by auto
  qed
  have "knots ! (m + 1) \<le> knots ! (length knots - 1)"
    using srt span(1) by (intro sorted_nth_mono) auto
  with span(3) have not_last: "u \<noteq> knots ! (length knots - 1)" by auto
  have last_rd: "rd knots (int (length knots) - 1) = Some (knots ! (length knots - 1))"
    using rd_in_range [of "length knots - 1" knots] span(1) by (simp add: of_nat_diff)
  have reads: "rd knots (int i) = Some (knots ! i)" "rd knots (int i + 1) = Some (knots ! (i + 1))"
    using i(2) by (simp_all add: rd_def nat_add_distrib)
  from not_in not_last i(2) show ?case
    unfolding coxDeBoor.simps reads last_rd by (auto simp: js_le_def js_lt_def js_eq_def)
next
  case (Suc k)
  from Suc.prems have "coxDeBoor i k u knots = Some 0" "coxDeBoor (i + 1) k u knots = Some 0"
    using Suc.IH [of i] Suc.IH [of "i + 1"] by auto
  with Suc.prems(1) show ?case
    by (simp only: coxDeBoor_step) simp
qed


lemma blend_unit:
  fixes a b u n :: real
  assumes "b - a \<noteq> 0"
  shows "(u - a) / (b - a) * n + (b - u) / (b - a) * n = n"
proof -
  have "(u - a) / (b - a) * n + (b - u) / (b - a) * n = ((u - a) + (b - u)) / (b - a) * n"
    by (simp only: add_divide_distrib distrib_right)
  also have "\<dots> = n" using assms by simp
  finally show ?thesis .
qed

lemma coxDeBoor_span_sum:
  assumes srt: "sorted knots" and span: "m + 1 < length knots" "knots ! m \<le> u" "u < knots ! (m + 1)"
  shows "d \<le> m \<Longrightarrow> m + d + 1 < length knots \<Longrightarrow>
           (\<Sum>j\<le>d. the (coxDeBoor (m - j) d u knots)) = 1"
proof (induction d)
  case 0
  have reads: "rd knots (int m) = Some (knots ! m)" "rd knots (int m + 1) = Some (knots ! (m + 1))"
    using span(1) by (simp_all add: rd_def nat_add_distrib)
  have "coxDeBoor m 0 u knots = Some 1"
    unfolding coxDeBoor.simps reads using span(2,3) by (simp add: js_le_def js_lt_def)
  then show ?case by simp
next
  case (Suc d)
  define N where "N i = the (coxDeBoor i d u knots)" for i
  define t where "t i = knots ! i" for i
  have N: "coxDeBoor i d u knots = Some (N i)" if "i + d + 1 < length knots" for i
    using coxDeBoor_finite [OF that, of u] by (auto simp: N_def)
  have N_low: "N (m - Suc d) = 0"
    using coxDeBoor_outside_span [OF srt span, of "m - Suc d" d] Suc.prems by (simp add: N_def)
  have N_high: "N (m + 1) = 0"
    using coxDeBoor_outside_span [OF srt span, of "m + 1" d] Suc.prems by (simp add: N_def)
  let ?a = "\<lambda>i. if t (i + Suc d) - t i = 0 then 0 else (u - t i) / (t (i + Suc d) - t i) * N i"
  let ?b = "\<lambda>i. if t (i + Suc d + 1) - t (i + 1) = 0 then 0
                 else (t (i + Suc d + 1) - u) / (t (i + Suc d + 1) - t (i + 1)) * N (i + 1)"
  have rec: "the (coxDeBoor i (Suc d) u knots) = ?a i + ?b i" if "i + Suc d + 1 < length knots" for i
  proof -
    from that have "i + d + 1 < length knots" "(i + 1) + d + 1 < length knots" by simp_all
    then have "coxDeBoor i d u knots = Some (N i)" "coxDeBoor (i + 1) d u knots = Some (N (i + 1))"
      by (simp_all only: N)
    from coxDeBoor_step [OF that this] show ?thesis by (simp add: t_def)
  qed
  have "(\<Sum>j\<le>Suc d. the (coxDeBoor (m - j) (Suc d) u knots)) = (\<Sum>j\<le>Suc d. ?a (m - j) + ?b (m - j))"
  proof (rule sum.cong)
    fix j assume "j \<in> {..Suc d}"
    with Suc.prems have "m - j + Suc d + 1 < length knots" by auto
    then show "the (coxDeBoor (m - j) (Suc d) u knots) = ?a (m - j) + ?b (m - j)"
      by (rule rec)
  qed simp
  also have "\<dots> = (\<Sum>j\<le>Suc d. ?a (m - j)) + (\<Sum>j\<le>Suc d. ?b (m - j))"
    by (rule sum.distrib)
  also have "(\<Sum>j\<le>Suc d. ?a (m - j)) = (\<Sum>j\<le>d. ?a (m - j))"
    using N_low by simp
  also have "(\<Sum>j\<le>Suc d. ?b (m - j)) = ?b m + (\<Sum>j\<le>d. ?b (m - Suc j))"
    by (simp only: sum.atMost_Suc_shift diff_zero)
  also have "?b m = 0"
    using N_high by simp
  finally have "(\<Sum>j\<le>Suc d. the (coxDeBoor (m - j) (Suc d) u knots))
      = (\<Sum>j\<le>d. ?a (m - j) + ?b (m - Suc j))"
    by (simp add: sum.distrib)
  also have "\<dots> = (\<Sum>j\<le>d. N (m - j))"
  proof (rule sum.cong)
    fix j assume "j \<in> {..d}"
    with Suc.prems have j: "j \<le> d" "Suc j \<le> m" "m - j + Suc d < length knots" by auto
    then have idx: "m - Suc j + 1 = m - j" "m - Suc j + Suc d + 1 = m - j + Suc d" by auto
    have "t (m - j) \<le> t m"
      unfolding t_def using srt span(1) by (intro sorted_nth_mono) auto
    moreover have "t (m + 1) \<le> t (m - j + Suc d)"
      unfolding t_def using srt j by (intro sorted_nth_mono) auto
    ultimately have pos: "t (m - j + Suc d) - t (m - j) > 0"
      using span(2,3) by (simp add: t_def)
    then have nz: "t (m - j + Suc d) - t (m - j) \<noteq> 0" by simp
    have "?a (m - j) + ?b (m - Suc j)
        = (u - t (m - j)) / (t (m - j + Suc d) - t (m - j)) * N (m - j)
          + (t (m - j + Suc d) - u) / (t (m - j + Suc d) - t (m - j)) * N (m - j)"
      unfolding idx using nz by (simp only: if_False)
    also have "\<dots> = N (m - j)"
      using nz by (rule blend_unit)
    finally show "?a (m - j) + ?b (m - Suc j) = N (m - j)" .
  qed simp
  also have "\<dots> = 1"
    using Suc.IH Suc.prems by (simp add: N_def)
  finally show ?case .
qed


lemma knot_span_exists:
  fixes knots :: KnotVector
  assumes "k < n" "knots ! k \<le> u" "u < knots ! n"
  obtains m where "k \<le> m" "m < n" "knots ! m \<le> u" "u < knots ! (m + 1)"
proof -
  define S where "S = {i. i < n \<and> knots ! i \<le> u}"
  have fin: "finite S" and ne: "k \<in> S"
    using assms by (auto simp: S_def)
  define m where "m = Max S"
  have "m \<in> S" unfolding m_def using fin ne by (intro Max_in) auto
  then have m: "m < n" "knots ! m \<le> u" by (auto simp: S_def)
  have "k \<le> m" unfolding m_def using fin ne by (rule Max_ge)
  moreover have "u < knots ! (m + 1)"
  proof (rule ccontr)
    assume neg: "\<not> u < knots ! (m + 1)"
    with assms(3) have "m + 1 \<noteq> n" by auto
    with m(1) neg have "m + 1 \<in> S" by (auto simp: S_def)
    then have "m + 1 \<le> m" unfolding m_def using fin by (intro Max_ge)
    then show False by simp
  qed
  ultimately show thesis using m that by blast
qed

lemma coxDeBoor_partition_of_unity:
  assumes srt: "sorted knots" and len: "length knots = n + k + 1" and kn: "k < n"
    and dom: "knots ! k \<le> u" "u < knots ! n"
  shows "(\<forall>i<n. \<exists>r. coxDeBoor i k u knots = Some r)
       \<and> (\<Sum>i<n. the (coxDeBoor i k u knots)) = 1"
proof
  show "\<forall>i<n. \<exists>r. coxDeBoor i k u knots = Some r"
    using len by (auto intro!: coxDeBoor_finite)
next
  from kn dom obtain m where m: "k \<le> m" "m < n" "knots ! m \<le> u" "u < knots ! (m + 1)"
    by (rule knot_span_exists)
  with len have span: "m + 1 < length knots" by simp
  let ?N = "\<lambda>i. the (coxDeBoor i k u knots)"
  have zero: "?N i = 0" if "i < n" "i \<notin> {m - k..m}" for i
  proof -
    from that len have "i + k + 1 < length knots" "m < i \<or> i + k < m" by auto
    from coxDeBoor_outside_span [OF srt span m(3,4) this] show ?thesis by simp
  qed
  have "(\<Sum>i<n. ?N i) = (\<Sum>i\<in>{m - k..m}. ?N i)"
    by (rule sum.mono_neutral_right) (use m zero in auto)
  also have "\<dots> = (\<Sum>j\<le>k. ?N (m - j))"
    by (rule sum.reindex_bij_witness [of _ "\<lambda>j. m - j" "\<lambda>i. m - i"]) (use m in auto)
  also have "\<dots> = 1"
    using m len by (intro coxDeBoor_span_sum [OF srt span m(3,4)]) auto
  finally show "(\<Sum>i<n. ?N i) = 1" .
qed

text \<open>
  At the final knot only the base function of index \<open>length - 2\<close> is 1. With a degree
  of at least 1 and the last \<open>k + 1\<close> knots equal, it reaches the basis functions of
  degree \<open>k\<close> only through terms whose denominator is 0, so all of them are 0 there.
\<close>

lemma coxDeBoor_final_knot_below:
  assumes srt: "sorted knots" and u: "u = knots ! (length knots - 1)"
  shows "i + d + 2 < length knots \<Longrightarrow> coxDeBoor i d u knots = Some 0"
proof (induction d arbitrary: i)
  case 0
  then have i: "i + 1 < length knots" "int i \<noteq> int (length knots) - 2" by auto
  have reads: "rd knots (int i) = Some (knots ! i)" "rd knots (int i + 1) = Some (knots ! (i + 1))"
    using i(1) by (simp_all add: rd_def nat_add_distrib)
  have "knots ! (i + 1) \<le> u"
    unfolding u using srt i(1) by (intro sorted_nth_mono) auto
  with i(2) show ?case
    unfolding coxDeBoor.simps reads by (auto simp: js_lt_def)
next
  case (Suc d)
  from Suc.prems have "coxDeBoor i d u knots = Some 0" "coxDeBoor (i + 1) d u knots = Some 0"
    using Suc.IH [of i] Suc.IH [of "i + 1"] by auto
  with Suc.prems show ?case
    by (simp only: coxDeBoor_step) simp
qed

lemma coxDeBoor_final_knot_clamped:
  assumes srt: "sorted knots" and len: "length knots = n + k + 1" and k: "1 \<le> k"
    and clamped: "knots ! n = knots ! (n + k)"
    and i: "i < n"
  shows "coxDeBoor i k (knots ! (n + k)) knots = Some 0"
proof (cases "i + k + 2 < length knots")
  case True
  with srt len show ?thesis
    by (intro coxDeBoor_final_knot_below) auto
next
  case False
  with i len have i_eq: "i + 1 = n" by simp
  from k obtain d where d: "k = Suc d" by (cases k) auto
  let ?u = "knots ! (n + k)"
  have low: "coxDeBoor i d ?u knots = Some 0"
    using srt len i d by (intro coxDeBoor_final_knot_below) auto
  obtain r2 where r2: "coxDeBoor (i + 1) d ?u knots = Some r2"
    using coxDeBoor_finite [of "i + 1" d knots ?u] len i d by auto
  have in_range: "i + Suc d + 1 < length knots" using len i d by simp
  have "knots ! (i + Suc d + 1) - knots ! (i + 1) = 0"
    using clamped i_eq d by (simp add: algebra_simps)
  with coxDeBoor_step [OF in_range low r2] show ?thesis
    unfolding d by simp
qed

section \<open>Partition of unity at the final knot\<close>

text \<open>
  C1. The basis functions are required to sum to one on the whole domain of a clamped
  knot vector, its final knot included, where the right-endpoint rule of the base case
  is meant to apply. At the final knot they do not: for four control points of degree 3
  over the clamped knot vector \<open>0, 0, 0, 0, 1, 1, 1, 1\<close>, which
  \<open>generateUniformKnots\<close> produces and \<open>validateKnots\<close> accepts, every basis function
  is 0 at \<open>u = 1\<close>, and the curve evaluates to \<open>(0, 0)\<close> there; at \<open>u = 1/2\<close> the
  four values sum to one.
\<close>

theorem coxDeBoor_final_knot:
  "generateUniformKnots 4 3 = [0, 0, 0, 0, 1, 1, 1, 1]
   \<and> validateKnots [0, 0, 0, 0, 1, 1, 1, 1] 4 3
   \<and> map (\<lambda>i. coxDeBoor i 3 1 [0, 0, 0, 0, 1, 1, 1, 1]) [0..<4] = [Some 0, Some 0, Some 0, Some 0]
   \<and> evaluateBSpline
        (map fin_point [\<lparr>px = 0, py = 0\<rparr>, \<lparr>px = 1, py = 2\<rparr>, \<lparr>px = 3, py = 3\<rparr>, \<lparr>px = 4, py = 0\<rparr>])
        3 1 [0, 0, 0, 0, 1, 1, 1, 1] = \<lparr>px = Some 0, py = Some 0\<rparr>
   \<and> map (\<lambda>i. coxDeBoor i 3 (1 / 2) [0, 0, 0, 0, 1, 1, 1, 1]) [0..<4]
       = [Some (1 / 8), Some (3 / 8), Some (3 / 8), Some (1 / 8)]"
proof (intro conjI)
  show "generateUniformKnots 4 3 = [0, 0, 0, 0, 1, 1, 1, 1]"
    by (simp add: generateUniformKnots_def upt_rec [of _ "numeral _"] upt_rec [of 0 "Suc _"]
        numeral_3_eq_3)
  show "validateKnots [0, 0, 0, 0, 1, 1, 1, 1] 4 3"
    by (simp add: validateKnots_def upt_rec [of _ "numeral _"] upt_rec [of 0 "Suc _"] nth_Cons')
  show "map (\<lambda>i. coxDeBoor i 3 1 [0, 0, 0, 0, 1, 1, 1, 1]) [0..<4]
          = [Some 0, Some 0, Some 0, Some 0]"
    by (simp add: upt_rec [of _ "numeral _"] upt_rec [of 0 "Suc _"] numeral_3_eq_3 rd_def
        js_le_def js_lt_def js_eq_def nth_Cons')
  show "evaluateBSpline
        (map fin_point [\<lparr>px = 0, py = 0\<rparr>, \<lparr>px = 1, py = 2\<rparr>, \<lparr>px = 3, py = 3\<rparr>, \<lparr>px = 4, py = 0\<rparr>])
        3 1 [0, 0, 0, 0, 1, 1, 1, 1] = \<lparr>px = Some 0, py = Some 0\<rparr>"
    by (simp add: evaluateBSpline_def fin_point_def Let_def upt_rec [of _ "numeral _"]
        upt_rec [of 0 "Suc _"] numeral_3_eq_3 rd_def js_le_def js_lt_def js_eq_def nth_Cons')
  show "map (\<lambda>i. coxDeBoor i 3 (1 / 2) [0, 0, 0, 0, 1, 1, 1, 1]) [0..<4]
       = [Some (1 / 8), Some (3 / 8), Some (3 / 8), Some (1 / 8)]"
    by (simp add: upt_rec [of _ "numeral _"] upt_rec [of 0 "Suc _"] numeral_3_eq_3 rd_def
        js_le_def js_lt_def js_eq_def nth_Cons')
qed

end
